theory Spec2Isabelle
  imports Complex_Main "HOL-Library.Multiset"
begin

section \<open>The entity tree\<close>

text \<open>
  The interface \<^verbatim>\<open>Cow\<close> of cattle-tree.ts: a required name, four optional
  properties. An absent optional property is \<open>None\<close>. The gender is one of the two
  string literals the interface allows. A value of this datatype is a finite tree held by
  value: no object is shared and none is its own descendant.
\<close>

datatype gender = male | female

datatype Cow =
  Cow (name: string) (age: "int option") (gender: "gender option")
      (cow_notes: "string option") (children: "Cow list option")

text \<open>The module-level sample list \<^verbatim>\<open>cows\<close> and the component's field \<^verbatim>\<open>data\<close>.\<close>

definition cows :: "Cow list" where
  "cows = [Cow ''Lilly'' (Some 11) (Some female) None None]"

definition leaf :: "string \<Rightarrow> Cow" where
  "leaf nm = Cow nm None None None None"

definition data :: Cow where
  "data = Cow ''Lilly'' None None None (Some
     [leaf ''Bella'',
      Cow ''Daisy'' None None None (Some [leaf ''MooMoo'', leaf ''Bessie'']),
      leaf ''Buttercup''])"

fun cow_count :: "Cow \<Rightarrow> nat"
  and cows_count :: "Cow list \<Rightarrow> nat" where
  "cow_count (Cow nm a g nt ch) = Suc (case ch of None \<Rightarrow> 0 | Some cs \<Rightarrow> cows_count cs)"
| "cows_count [] = 0"
| "cows_count (c # cs) = cow_count c + cows_count cs"

section \<open>The hierarchy of d3\<close>

text \<open>
  \<^verbatim>\<open>d3.hierarchy(data)\<close> wraps every entity in a node object with the fields
  \<^verbatim>\<open>data\<close>, \<^verbatim>\<open>depth\<close>, \<^verbatim>\<open>parent\<close> and \<^verbatim>\<open>children\<close>; the tree layout later
  writes \<^verbatim>\<open>x\<close> and \<^verbatim>\<open>y\<close> into the same objects. A node object is identified here
  by the path of child indices that leads to it from the root (\<open>ident\<close>), and the
  reference \<^verbatim>\<open>parent\<close> is the identity of the parent (\<open>None\<close> for the root's
  \<^verbatim>\<open>null\<close>). The type parameter is what the layout has written so far: \<open>unit\<close>
  before the layout, a preliminary x during it, the pair (x, y) after it. A node
  without children has \<open>kids = []\<close>: d3 leaves its \<^verbatim>\<open>children\<close> undefined both for
  an absent and for an empty \<^verbatim>\<open>children\<close> array of the entity. The fields
  \<^verbatim>\<open>height\<close> and \<^verbatim>\<open>value\<close> of a node, which \<^verbatim>\<open>createTree\<close> and the tree
  layout never read, are left out. d3 is a library that the component imports; its
  functions are modelled by what they return.
\<close>

type_synonym path = "nat list"

datatype 'p hnode =
  HNode (ident: path) (parent: "path option") (depth: nat) (node_data: Cow) (pos: 'p)
        (kids: "'p hnode list")

fun hierarchy_at :: "path \<Rightarrow> path option \<Rightarrow> nat \<Rightarrow> Cow \<Rightarrow> unit hnode"
  and hierarchy_kids :: "path \<Rightarrow> nat \<Rightarrow> nat \<Rightarrow> Cow list \<Rightarrow> unit hnode list" where
  "hierarchy_at p par d (Cow nm a g nt ch) =
     HNode p par d (Cow nm a g nt ch) ()
       (case ch of None \<Rightarrow> [] | Some cs \<Rightarrow> hierarchy_kids p d 0 cs)"
| "hierarchy_kids p d i [] = []"
| "hierarchy_kids p d i (c # cs) =
     hierarchy_at (p @ [i]) (Some p) (Suc d) c # hierarchy_kids p d (Suc i) cs"

definition hierarchy :: "Cow \<Rightarrow> unit hnode" where
  "hierarchy c = hierarchy_at [] None 0 c"

text \<open>
  \<^verbatim>\<open>node.each\<close> visits the nodes level by level (breadth first), \<^verbatim>\<open>node.eachBefore\<close>
  in pre-order. \<^verbatim>\<open>descendants()\<close> is the array of the nodes in the order of
  \<^verbatim>\<open>each\<close>.
\<close>

fun node_count :: "'p hnode \<Rightarrow> nat" where
  "node_count (HNode i par d c q ks) = Suc (sum_list (map node_count ks))"

function each_level :: "'p hnode list \<Rightarrow> 'p hnode list" where
  "each_level [] = []"
| "each_level (n # ns) = (n # ns) @ each_level (concat (map kids (n # ns)))"
  by pat_completeness auto

termination each_level
proof (relation "measure (\<lambda>ns. sum_list (map node_count ns))")
  show "wf (measure (\<lambda>ns::'p hnode list. sum_list (map node_count ns)))"
    by simp
next
  fix n :: "'p hnode" and ns :: "'p hnode list"
  have one: "sum_list (map node_count (kids m)) < node_count m" for m :: "'p hnode"
    by (cases m) simp
  have "sum_list (map node_count (concat (map kids ms))) \<le> sum_list (map node_count ms)"
    for ms :: "'p hnode list"
  proof (induction ms)
    case Nil
    show ?case by simp
  next
    case (Cons m ms)
    with one [of m] show ?case by simp
  qed
  from this [of ns] one [of n]
  show "(concat (map kids (n # ns)), n # ns) \<in> measure (\<lambda>ns. sum_list (map node_count ns))"
    by simp
qed

definition descendants :: "'p hnode \<Rightarrow> 'p hnode list" where
  "descendants rt = each_level [rt]"

fun eachBefore :: "'p hnode \<Rightarrow> 'p hnode list" where
  "eachBefore (HNode i par d c q ks) = HNode i par d c q ks # concat (map eachBefore ks)"

text \<open>
  \<^verbatim>\<open>links()\<close> visits the nodes with \<^verbatim>\<open>each\<close> and pushes, for every node that is
  not the root itself, the pair of its parent and itself. Following the reference
  \<^verbatim>\<open>node.parent\<close> is looking up the node with the parent's identity in the tree.
  In a hierarchy every node but the root has a parent and the parent is found
  (\<open>length_links\<close> and \<open>links_source\<close> below), so the two empty cases of
  \<open>link_of\<close> are never taken there.
\<close>

record 'p link =
  source :: "'p hnode"
  target :: "'p hnode"

definition deref :: "'p hnode \<Rightarrow> path \<Rightarrow> 'p hnode option" where
  "deref rt p = find (\<lambda>m. ident m = p) (descendants rt)"

definition link_of :: "'p hnode \<Rightarrow> 'p hnode \<Rightarrow> 'p link list" where
  "link_of rt n =
     (if ident n = ident rt then []
      else case parent n of
             None \<Rightarrow> []
           | Some p \<Rightarrow> (case deref rt p of
                         None \<Rightarrow> []
                       | Some s \<Rightarrow> [\<lparr>source = s, target = n\<rparr>]))"

definition links :: "'p hnode \<Rightarrow> 'p link list" where
  "links rt = concat (map (link_of rt) (descendants rt))"

section \<open>The tree layout of d3\<close>

text \<open>
  \<^verbatim>\<open>d3.tree().size([dx, dy])\<close> runs in two phases. The first (the first and second
  walk of the tidy-tree algorithm of the d3-hierarchy library, which is not part of
  this repository) gives every node a preliminary x; it is the parameter \<open>walks\<close>,
  which maps the hierarchy and a node's identity to that node's preliminary x. The
  second phase is modelled in full: it finds the left-most, the right-most and the
  deepest node in pre-order (the first one found wins a tie, the comparisons being
  strict), and scales every node into the size:
  \<^verbatim>\<open>
    s  = left === right ? 1 : separation(left, right) / 2
    tx = s - left.x
    kx = dx / (right.x + s + tx)
    ky = dy / (bottom.depth || 1)
    node.x = (node.x + tx) * kx
    node.y = node.depth * ky
  \<close>
  JavaScript numbers are modelled as real numbers.
\<close>

definition separation :: "'p hnode \<Rightarrow> 'p hnode \<Rightarrow> real" where
  "separation a b = (if parent a = parent b then 1 else 2)"

fun place :: "('p hnode \<Rightarrow> 'q) \<Rightarrow> 'p hnode \<Rightarrow> 'q hnode" where
  "place f (HNode i par d c q ks) =
     HNode i par d c (f (HNode i par d c q ks)) (map (place f) ks)"

definition leftmost :: "real hnode \<Rightarrow> real hnode" where
  "leftmost t = fold (\<lambda>n l. if pos n < pos l then n else l) (eachBefore t) t"

definition rightmost :: "real hnode \<Rightarrow> real hnode" where
  "rightmost t = fold (\<lambda>n l. if pos n > pos l then n else l) (eachBefore t) t"

definition bottommost :: "real hnode \<Rightarrow> real hnode" where
  "bottommost t = fold (\<lambda>n b. if depth n > depth b then n else b) (eachBefore t) t"

definition walk :: "(unit hnode \<Rightarrow> path \<Rightarrow> real) \<Rightarrow> unit hnode \<Rightarrow> real hnode" where
  "walk walks rt = place (\<lambda>n. walks rt (ident n)) rt"

definition scale :: "real \<times> real \<Rightarrow> real hnode \<Rightarrow> (real \<times> real) hnode" where
  "scale sz t =
     (let left = leftmost t;
          right = rightmost t;
          bottom = bottommost t;
          s = (if ident left = ident right then 1 else separation left right / 2);
          tx = s - pos left;
          kx = fst sz / (pos right + s + tx);
          ky = snd sz / (if depth bottom = 0 then 1 else real (depth bottom))
      in place (\<lambda>n. ((pos n + tx) * kx, real (depth n) * ky)) t)"

definition tree_layout ::
  "(unit hnode \<Rightarrow> path \<Rightarrow> real) \<Rightarrow> real \<times> real \<Rightarrow> unit hnode \<Rightarrow> (real \<times> real) hnode" where
  "tree_layout walks sz rt = scale sz (walk walks rt)"

definition node_x :: "(real \<times> real) hnode \<Rightarrow> real" where
  "node_x n = fst (pos n)"

definition node_y :: "(real \<times> real) hnode \<Rightarrow> real" where
  "node_y n = snd (pos n)"

section \<open>The rendered diagram\<close>

text \<open>
  The elements that \<^verbatim>\<open>createTree\<close> appends, with the attributes it sets. The
  attribute \<^verbatim>\<open>transform\<close> of a node group, the string
  \<^verbatim>\<open>translate(x,y)\<close>, is the pair (x, y). The properties \<^verbatim>\<open>dragging\<close> and
  \<^verbatim>\<open>dragStart\<close>, which the drag handlers write into the datum of a node group, are
  kept with the group; \<open>None\<close> is a property not yet written.
\<close>

record line =
  cls :: string
  x1 :: real
  y1 :: real
  x2 :: real
  y2 :: real
  stroke :: string
  stroke_width :: nat

record gnode =
  datum :: "(real \<times> real) hnode"
  transform :: "real \<times> real"
  dragging :: "bool option"
  dragStart :: "int option"
  circle_r :: nat
  circle_fill :: string
  text_dy :: nat
  text_anchor :: string
  text_content :: string
  font_size :: string

record svg =
  width :: nat
  height :: nat
  g_transform :: "real \<times> real"
  lines :: "line list"
  nodes :: "gnode list"

text \<open>The children of the element \<^verbatim>\<open>treeContainer\<close>.\<close>

type_synonym container = "svg list"

definition selectAll_remove :: "container \<Rightarrow> container" where
  "selectAll_remove el = []"

definition draw_link :: "(real \<times> real) link \<Rightarrow> line" where
  "draw_link d =
     \<lparr>cls = ''link'',
      x1 = node_x (source d), y1 = node_y (source d),
      x2 = node_x (target d), y2 = node_y (target d),
      stroke = ''#999'', stroke_width = 2\<rparr>"

definition draw_node :: "(real \<times> real) hnode \<Rightarrow> gnode" where
  "draw_node d =
     \<lparr>datum = d, transform = (node_x d, node_y d),
      dragging = None, dragStart = None,
      circle_r = 20, circle_fill = ''#89CFF0'',
      text_dy = 5, text_anchor = ''middle'', text_content = name (node_data d),
      font_size = ''12px''\<rparr>"

text \<open>
  The \<^verbatim>\<open>svg\<close> as it is appended, with its group translated by (50, 50) and still
  empty; \<^verbatim>\<open>createTree\<close> then appends the lines and the node groups to the group.
\<close>

definition new_svg :: "nat \<Rightarrow> nat \<Rightarrow> svg" where
  "new_svg w h = \<lparr>width = w, height = h, g_transform = (50, 50), lines = [], nodes = []\<rparr>"

definition createTree ::
  "(unit hnode \<Rightarrow> path \<Rightarrow> real) \<Rightarrow> Cow \<Rightarrow> container \<Rightarrow> container" where
  "createTree walks d el =
     (let w = 800; h = 600;
          rt = tree_layout walks (real (w - 100), real (h - 100)) (hierarchy d)
      in selectAll_remove el @
         [(new_svg w h)\<lparr>lines := map draw_link (links rt),
                         nodes := map draw_node (descendants rt)\<rparr>])"

section \<open>The drag handlers\<close>

text \<open>
  The three handlers of \<^verbatim>\<open>d3.drag()\<close> on a node group. \<^verbatim>\<open>Date.now()\<close> is the
  argument \<open>now\<close>, in milliseconds. The component's \<^verbatim>\<open>MatDialog\<close> service is the
  list of the dialogs opened so far, each with its component and the \<^verbatim>\<open>data\<close> of its
  configuration. A drag event carries the pair of \<^verbatim>\<open>event.x\<close> and
  \<^verbatim>\<open>event.y\<close>. In the end handler a \<^verbatim>\<open>dragStart\<close> that was never written
  makes the difference \<^verbatim>\<open>NaN\<close> and the comparison false.
\<close>

record dialog_ref =
  component :: string
  dialog_data :: Cow

record view =
  treeContainer :: container
  dialog :: "dialog_ref list"

definition on_start :: "int \<Rightarrow> gnode \<Rightarrow> gnode" where
  "on_start now g = g\<lparr>dragging := Some True, dragStart := Some now\<rparr>"

definition on_drag :: "real \<times> real \<Rightarrow> gnode \<Rightarrow> gnode" where
  "on_drag ev g = g\<lparr>transform := (fst ev, snd ev)\<rparr>"

definition wasClick :: "int \<Rightarrow> gnode \<Rightarrow> bool" where
  "wasClick now g = (case dragStart g of None \<Rightarrow> False | Some t0 \<Rightarrow> now - t0 < 200)"

definition on_end :: "int \<Rightarrow> gnode \<Rightarrow> gnode \<times> dialog_ref list" where
  "on_end now g =
     (g\<lparr>dragging := Some False\<rparr>,
      if wasClick now g
      then [\<lparr>component = ''CowDialogComponent'', dialog_data = node_data (datum g)\<rparr>]
      else [])"

text \<open>
  An event reaches the node group whose datum has the given identity. \<^verbatim>\<open>raise()\<close>
  in the start handler moves the group behind its siblings; the lines come before the
  node groups, so it becomes the last node group.
\<close>

datatype event = DragStart path int | Drag path "real \<times> real" | DragEnd path int

definition is_node :: "path \<Rightarrow> gnode \<Rightarrow> bool" where
  "is_node i g = (ident (datum g) = i)"

definition raise_node :: "path \<Rightarrow> gnode list \<Rightarrow> gnode list" where
  "raise_node i gs = filter (\<lambda>g. \<not> is_node i g) gs @ filter (is_node i) gs"

definition at_node :: "path \<Rightarrow> (gnode \<Rightarrow> gnode) \<Rightarrow> svg \<Rightarrow> svg" where
  "at_node i f sv = sv\<lparr>nodes := map (\<lambda>g. if is_node i g then f g else g) (nodes sv)\<rparr>"

definition opened :: "path \<Rightarrow> int \<Rightarrow> svg \<Rightarrow> dialog_ref list" where
  "opened i now sv = concat (map (\<lambda>g. snd (on_end now g)) (filter (is_node i) (nodes sv)))"

fun handle :: "view \<Rightarrow> event \<Rightarrow> view" where
  "handle v (DragStart i now) =
     v\<lparr>treeContainer :=
         map (\<lambda>sv. at_node i (on_start now) (sv\<lparr>nodes := raise_node i (nodes sv)\<rparr>))
             (treeContainer v)\<rparr>"
| "handle v (Drag i ev) =
     v\<lparr>treeContainer := map (at_node i (on_drag ev)) (treeContainer v)\<rparr>"
| "handle v (DragEnd i now) =
     v\<lparr>treeContainer := map (at_node i (\<lambda>g. fst (on_end now g))) (treeContainer v),
       dialog := dialog v @ concat (map (opened i now) (treeContainer v))\<rparr>"

text \<open>
  A gesture on one node: the start event at \<open>t0\<close>, a drag event for every pointer
  movement, and the end event at \<open>t1\<close>.
\<close>

definition gesture :: "path \<Rightarrow> int \<Rightarrow> (real \<times> real) list \<Rightarrow> int \<Rightarrow> event list" where
  "gesture i t0 moves t1 = DragStart i t0 # map (Drag i) moves @ [DragEnd i t1]"

definition run :: "view \<Rightarrow> event list \<Rightarrow> view" where
  "run v evs = foldl handle v evs"

definition node_gesture ::
  "int \<Rightarrow> (real \<times> real) list \<Rightarrow> int \<Rightarrow> gnode \<Rightarrow> gnode \<times> dialog_ref list" where
  "node_gesture t0 moves t1 g = on_end t1 (fold on_drag moves (on_start t0 g))"

section \<open>The component and its module\<close>

text \<open>
  \<^verbatim>\<open>ngOnInit\<close> renders the field \<^verbatim>\<open>data\<close>. A new component has an empty
  container and no dialog open.
\<close>

definition new_view :: view where
  "new_view = \<lparr>treeContainer = [], dialog = []\<rparr>"

definition ngOnInit :: "(unit hnode \<Rightarrow> path \<Rightarrow> real) \<Rightarrow> view \<Rightarrow> view" where
  "ngOnInit walks v = v\<lparr>treeContainer := createTree walks data (treeContainer v)\<rparr>"

text \<open>
  JSON values. The own properties of a \<^verbatim>\<open>Cow\<close> object, in the order in which the
  object literals of the source write them; an absent property is not listed.
  Reading a property of the object looks its name up, and a name that is not listed
  reads as \<^verbatim>\<open>undefined\<close> (\<open>None\<close>).
\<close>

datatype json = JNull | JNum int | JStr string | JArr "json list" | JObj "(string \<times> json) list"

fun gender_name :: "gender \<Rightarrow> string" where
  "gender_name male = ''male''"
| "gender_name female = ''female''"

fun properties :: "Cow \<Rightarrow> (string \<times> json) list"
  and properties_list :: "Cow list \<Rightarrow> json list" where
  "properties (Cow nm a g nt ch) =
     [(''name'', JStr nm)] @
     (case a of None \<Rightarrow> [] | Some v \<Rightarrow> [(''age'', JNum v)]) @
     (case g of None \<Rightarrow> [] | Some v \<Rightarrow> [(''gender'', JStr (gender_name v))]) @
     (case nt of None \<Rightarrow> [] | Some v \<Rightarrow> [(''notes'', JStr v)]) @
     (case ch of None \<Rightarrow> [] | Some cs \<Rightarrow> [(''children'', JArr (properties_list cs))])"
| "properties_list [] = []"
| "properties_list (c # cs) = JObj (properties c) # properties_list cs"




text \<open>
  The statements at the top level of the module run when the module is loaded. A
  stored item is the JSON value its text denotes: \<^verbatim>\<open>JSON.stringify\<close> of the list
  gives the array of the objects, and \<^verbatim>\<open>JSON.parse\<close> gives the value back
  (\<^verbatim>\<open>null\<close> for a missing item). The page holds the storage, the console and the
  component instance, if there is one.
\<close>

record page =
  localStorage :: "string \<rightharpoonup> json"
  console :: "json list"
  instance_of :: "view option"

definition JSON_stringify :: "Cow list \<Rightarrow> json" where
  "JSON_stringify cs = JArr (properties_list cs)"

definition JSON_parse :: "json option \<Rightarrow> json" where
  "JSON_parse item = (case item of None \<Rightarrow> JNull | Some j \<Rightarrow> j)"

definition module_load :: "page \<Rightarrow> page" where
  "module_load p =
     (let p1 = p\<lparr>localStorage := (localStorage p)(''cows'' \<mapsto> JSON_stringify cows)\<rparr>
      in p1\<lparr>console := console p1 @ [JSON_parse (localStorage p1 ''cows'')]\<rparr>)"

definition create_component :: "(unit hnode \<Rightarrow> path \<Rightarrow> real) \<Rightarrow> page \<Rightarrow> page" where
  "create_component walks p = p\<lparr>instance_of := Some (ngOnInit walks new_view)\<rparr>"

section \<open>The hierarchy of an object graph\<close>

text \<open>
  A value of \<open>Cow\<close> cannot share or repeat an object; JavaScript objects can. To
  say what \<^verbatim>\<open>createTree\<close> does on such a graph, the entities are objects in a heap,
  addressed by numbers, whose \<^verbatim>\<open>children\<close> are addresses.

  \<^verbatim>\<open>d3.hierarchy\<close> makes one node object for every entity it reaches, a new one each
  time it reaches the entity again, so what it builds is the tree that the graph
  unfolds to from the root. \<open>unfold k\<close> follows the children at most \<open>k\<close> levels down
  and gives that tree if it ends within them. The engine has room for \<open>cap\<close> node
  objects: \<^verbatim>\<open>d3.hierarchy\<close> returns the tree when it has at most \<open>cap\<close> nodes (such
  a tree is at most \<open>cap\<close> levels deep), and otherwise the engine stops the script
  for lack of memory (\<open>None\<close>).
\<close>

type_synonym addr = nat

datatype obj =
  Obj (obj_name: string) (obj_age: "int option") (obj_gender: "gender option")
      (obj_notes: "string option") (obj_children: "addr list option")

fun unfold :: "nat \<Rightarrow> (addr \<Rightarrow> obj) \<Rightarrow> addr \<Rightarrow> Cow option"
  and unfold_list :: "nat \<Rightarrow> (addr \<Rightarrow> obj) \<Rightarrow> addr list \<Rightarrow> Cow list option" where
  "unfold 0 h a = None"
| "unfold (Suc k) h a =
     (case obj_children (h a) of
        None \<Rightarrow>
          Some (Cow (obj_name (h a)) (obj_age (h a)) (obj_gender (h a)) (obj_notes (h a)) None)
      | Some childs \<Rightarrow>
          (case unfold_list k h childs of
             None \<Rightarrow> None
           | Some cs \<Rightarrow>
               Some (Cow (obj_name (h a)) (obj_age (h a)) (obj_gender (h a)) (obj_notes (h a))
                       (Some cs))))"
| "unfold_list k h [] = Some []"
| "unfold_list k h (a # childs) =
     (case unfold k h a of
        None \<Rightarrow> None
      | Some c \<Rightarrow> (case unfold_list k h childs of None \<Rightarrow> None | Some cs \<Rightarrow> Some (c # cs)))"

definition hierarchy_graph :: "nat \<Rightarrow> (addr \<Rightarrow> obj) \<Rightarrow> addr \<Rightarrow> Cow option" where
  "hierarchy_graph cap h a =
     (case unfold cap h a of
        None \<Rightarrow> None
      | Some d \<Rightarrow> if cow_count d \<le> cap then Some d else None)"

text \<open>
  \<^verbatim>\<open>createTree\<close> on an object graph. Its first statements clear the container and
  append the \<^verbatim>\<open>svg\<close>; then comes \<^verbatim>\<open>d3.hierarchy\<close>. If the engine runs out of
  memory there, the script stops and the container stays as those statements left it.
  Otherwise \<^verbatim>\<open>createTree\<close> goes on as it does on the tree.
\<close>

datatype outcome = Completed | OutOfMemory

definition createTree_graph ::
  "(unit hnode \<Rightarrow> path \<Rightarrow> real) \<Rightarrow> nat \<Rightarrow> (addr \<Rightarrow> obj) \<Rightarrow> addr \<Rightarrow> container \<Rightarrow>
   outcome \<times> container" where
  "createTree_graph walks cap h a el =
     (case hierarchy_graph cap h a of
        None \<Rightarrow> (OutOfMemory, selectAll_remove el @ [new_svg 800 600])
      | Some d \<Rightarrow> (Completed, createTree walks d el))"

text \<open>
  Two sample inputs: a root with one child, and the walk on it. On a tree in which no
  node has a sibling the tidy-tree walks leave every preliminary x at 0.
\<close>

definition chain :: Cow where
  "chain = Cow ''A'' None None None (Some [leaf ''B''])"

definition walks_chain :: "unit hnode \<Rightarrow> path \<Rightarrow> real" where
  "walks_chain rt p = 0"

definition chain_view :: view where
  "chain_view = \<lparr>treeContainer = createTree walks_chain chain [], dialog = []\<rparr>"

text \<open>
  Two object graphs: the two-node tree again, and a graph of two objects named A,
  each the only child of the other, so that the root is its own grandchild.
\<close>

definition chain_heap :: "addr \<Rightarrow> obj" where
  "chain_heap a =
     (if a = 0 then Obj ''A'' None None None (Some [1])
      else Obj ''B'' None None None None)"


section \<open>Properties of the traversals\<close>

lemma place_sel [simp]:
  "ident (place f n) = ident n" "parent (place f n) = parent n"
  "depth (place f n) = depth n" "node_data (place f n) = node_data n"
  "pos (place f n) = f n" "kids (place f n) = map (place f) (kids n)"
  by (cases n; simp)+

lemma each_level_place: "each_level (map (place f) ns) = map (place f) (each_level ns)"
proof (induction ns rule: each_level.induct)
  case 1
  show ?case by simp
next
  case (2 n ns)
  have "concat (map kids (map (place f) (n # ns))) = map (place f) (concat (map kids (n # ns)))"
    by (simp add: map_concat comp_def)
  with 2 show ?case by simp
qed

lemma descendants_place: "descendants (place f rt) = map (place f) (descendants rt)"
  using each_level_place [of f "[rt]"] by (simp add: descendants_def)

lemma eachBefore_place: "eachBefore (place f n) = map (place f) (eachBefore n)"
proof (induction n)
  case (HNode i par d c q ks)
  then have eq: "map (\<lambda>k. eachBefore (place f k)) ks = map (\<lambda>k. map (place f) (eachBefore k)) ks"
    by (simp cong: map_cong)
  show ?case by (simp add: map_concat comp_def eq del: map_eq_conv)
qed

lemma eachBefore_unfold: "eachBefore n = n # concat (map eachBefore (kids n))"
  by (cases n) simp

lemma mset_preorder_level:
  "mset (concat (map eachBefore ms)) =
   mset ms + mset (concat (map eachBefore (concat (map kids ms))))"
proof (induction ms)
  case Nil
  show ?case by simp
next
  case (Cons m ms)
  show ?case using Cons.IH eachBefore_unfold [of m] by simp
qed

lemma mset_each_level: "mset (each_level ns) = mset (concat (map eachBefore ns))"
proof (induction ns rule: each_level.induct)
  case 1
  show ?case by simp
next
  case (2 n ns)
  show ?case using 2 mset_preorder_level [of "n # ns"] by simp
qed

lemma mset_descendants: "mset (descendants rt) = mset (eachBefore rt)"
  using eachBefore_unfold [of rt] by (simp add: descendants_def mset_each_level)

lemma length_eachBefore: "length (eachBefore n) = node_count n"
proof (induction n)
  case (HNode i par d c q ks)
  then have eq: "map (\<lambda>k. length (eachBefore k)) ks = map node_count ks"
    by (simp cong: map_cong)
  show ?case by (simp add: length_concat comp_def eq del: map_eq_conv)
qed

lemma length_descendants: "length (descendants rt) = node_count rt"
  using mset_descendants [of rt] length_eachBefore [of rt] by (metis size_mset)

lemma node_count_hierarchy:
  "node_count (hierarchy_at p par d c) = cow_count c"
  "sum_list (map node_count (hierarchy_kids p d i cs)) = cows_count cs"
  by (induction p par d c and p d i cs rule: hierarchy_at_hierarchy_kids.induct)
     (simp_all split: option.splits)

lemma ident_hierarchy_at [simp]: "ident (hierarchy_at p par d c) = p"
  by (cases c) simp

lemma parent_hierarchy_at [simp]: "parent (hierarchy_at p par d c) = par"
  by (cases c) simp

lemma node_data_hierarchy_at [simp]: "node_data (hierarchy_at p par d c) = c"
  by (cases c) simp

lemma ids_hierarchy:
  "\<forall>n \<in> set (eachBefore (hierarchy_at p par d c)). \<exists>q. ident n = p @ q"
  "\<forall>n \<in> set (concat (map eachBefore (hierarchy_kids p d i cs))).
     \<exists>j q. i \<le> j \<and> ident n = p @ j # q"
proof (induction p par d c and p d i cs rule: hierarchy_at_hierarchy_kids.induct)
  case (1 p par d nm a g nt ch)
  then show ?case by (cases ch) auto
next
  case (2 p d i)
  show ?case by simp
next
  case (3 p d i c cs)
  show ?case
  proof
    fix n
    assume "n \<in> set (concat (map eachBefore (hierarchy_kids p d i (c # cs))))"
    then consider "n \<in> set (eachBefore (hierarchy_at (p @ [i]) (Some p) (Suc d) c))"
      | "n \<in> set (concat (map eachBefore (hierarchy_kids p d (Suc i) cs)))"
      by auto
    then show "\<exists>j q. i \<le> j \<and> ident n = p @ j # q"
    proof cases
      case 1
      with "3.IH"(1) obtain q where "ident n = (p @ [i]) @ q" by blast
      then show ?thesis by auto
    next
      case 2
      with "3.IH"(2) obtain j q where "Suc i \<le> j" "ident n = p @ j # q" by blast
      then show ?thesis by (intro exI [of _ j] exI [of _ q]) simp
    qed
  qed
qed

lemma distinct_hierarchy:
  "distinct (map ident (eachBefore (hierarchy_at p par d c)))"
  "distinct (map ident (concat (map eachBefore (hierarchy_kids p d i cs))))"
proof (induction p par d c and p d i cs rule: hierarchy_at_hierarchy_kids.induct)
  case (1 p par d nm a g nt ch)
  show ?case
  proof (cases ch)
    case None
    then show ?thesis by simp
  next
    case (Some cs)
    have "p \<notin> ident ` set (concat (map eachBefore (hierarchy_kids p d 0 cs)))"
      using ids_hierarchy(2) [of p d 0 cs] by force
    with 1 Some show ?thesis by simp
  qed
next
  case (2 p d i)
  show ?case by simp
next
  case (3 p d i c cs)
  have "ident ` set (eachBefore (hierarchy_at (p @ [i]) (Some p) (Suc d) c)) \<inter>
        ident ` set (concat (map eachBefore (hierarchy_kids p d (Suc i) cs))) = {}"
  proof -
    { fix a b
      assume a: "a \<in> set (eachBefore (hierarchy_at (p @ [i]) (Some p) (Suc d) c))"
        and b: "b \<in> set (concat (map eachBefore (hierarchy_kids p d (Suc i) cs)))"
        and eq: "ident a = ident b"
      from a ids_hierarchy(1) obtain q where qa: "ident a = (p @ [i]) @ q" by blast
      from b ids_hierarchy(2) obtain j q' where "Suc i \<le> j" "ident b = p @ j # q'" by blast
      with qa eq have False by simp }
    then show ?thesis by blast
  qed
  with 3 show ?case by simp
qed

lemma parent_hierarchy:
  "\<forall>n \<in> set (eachBefore (hierarchy_at p par d c)).
     ident n = p \<or> (\<exists>m \<in> set (eachBefore (hierarchy_at p par d c)). parent n = Some (ident m))"
  "\<forall>n \<in> set (concat (map eachBefore (hierarchy_kids p d i cs))).
     parent n = Some p \<or>
     (\<exists>m \<in> set (concat (map eachBefore (hierarchy_kids p d i cs))). parent n = Some (ident m))"
proof (induction p par d c and p d i cs rule: hierarchy_at_hierarchy_kids.induct)
  case (1 p par d nm a g nt ch)
  show ?case
  proof (cases ch)
    case None
    then show ?thesis by simp
  next
    case (Some cs)
    with 1 show ?thesis by fastforce
  qed
next
  case (2 p d i)
  show ?case by simp
next
  case (3 p d i c cs)
  show ?case
  proof
    fix n
    assume "n \<in> set (concat (map eachBefore (hierarchy_kids p d i (c # cs))))"
    then consider "n \<in> set (eachBefore (hierarchy_at (p @ [i]) (Some p) (Suc d) c))"
      | "n \<in> set (concat (map eachBefore (hierarchy_kids p d (Suc i) cs)))"
      by auto
    then show "parent n = Some p \<or>
      (\<exists>m \<in> set (concat (map eachBefore (hierarchy_kids p d i (c # cs)))). parent n = Some (ident m))"
    proof cases
      case 1
      with "3.IH"(1) have "ident n = p @ [i] \<or>
        (\<exists>m \<in> set (eachBefore (hierarchy_at (p @ [i]) (Some p) (Suc d) c)). parent n = Some (ident m))"
        by blast
      then show ?thesis
      proof
        assume "ident n = p @ [i]"
        have "distinct (map ident (eachBefore (hierarchy_at (p @ [i]) (Some p) (Suc d) c)))"
          by (rule distinct_hierarchy)
        moreover have "hierarchy_at (p @ [i]) (Some p) (Suc d) c
            \<in> set (eachBefore (hierarchy_at (p @ [i]) (Some p) (Suc d) c))"
          using eachBefore_unfold [of "hierarchy_at (p @ [i]) (Some p) (Suc d) c"] by simp
        ultimately have "n = hierarchy_at (p @ [i]) (Some p) (Suc d) c"
          using 1 \<open>ident n = p @ [i]\<close> by (simp add: distinct_map inj_on_def)
        then show ?thesis by simp
      next
        assume "\<exists>m \<in> set (eachBefore (hierarchy_at (p @ [i]) (Some p) (Suc d) c)).
                  parent n = Some (ident m)"
        then show ?thesis by auto
      qed
    next
      case 2
      with "3.IH"(2) show ?thesis by auto
    qed
  qed
qed

lemma set_descendants: "set (descendants rt) = set (eachBefore rt)"
  using mset_descendants [of rt] by (metis set_mset_mset)

lemma distinct_descendants_hierarchy: "distinct (map ident (descendants (hierarchy c)))"
proof -
  have "mset (map ident (descendants (hierarchy c))) = mset (map ident (eachBefore (hierarchy c)))"
    by (simp add: mset_descendants)
  then show ?thesis
    using distinct_hierarchy(1) [of "[]" None 0 c]
    by (metis hierarchy_def mset_eq_imp_distinct_iff)
qed

lemma parents_descendants_hierarchy:
  "\<forall>n \<in> set (descendants (hierarchy c)).
     ident n = ident (hierarchy c) \<or>
     (\<exists>m \<in> set (descendants (hierarchy c)). parent n = Some (ident m))"
  using parent_hierarchy(1) [of "[]" None 0 c]
  by (simp add: set_descendants hierarchy_def)

lemma distinct_descendants_place:
  "distinct (map ident (descendants rt)) \<Longrightarrow> distinct (map ident (descendants (place f rt)))"
  by (simp add: descendants_place comp_def)

lemma parents_descendants_place:
  "\<forall>n \<in> set (descendants rt).
     ident n = ident rt \<or> (\<exists>m \<in> set (descendants rt). parent n = Some (ident m)) \<Longrightarrow>
   \<forall>n \<in> set (descendants (place f rt)).
     ident n = ident (place f rt) \<or>
     (\<exists>m \<in> set (descendants (place f rt)). parent n = Some (ident m))"
  by (fastforce simp: descendants_place)

lemma scale_place: "\<exists>g. scale sz t = place g t"
  unfolding scale_def Let_def by (rule exI) (rule refl)

lemma layout_as_place:
  obtains g where "tree_layout walks sz rt = place g (place (\<lambda>n. walks rt (ident n)) rt)"
  using scale_place [of sz "walk walks rt"] by (auto simp: tree_layout_def walk_def)

lemma ident_layout [simp]: "ident (tree_layout walks sz rt) = ident rt"
  by (rule layout_as_place [of walks sz rt]) simp

lemma map_ident_layout:
  "map ident (descendants (tree_layout walks sz rt)) = map ident (descendants rt)"
  by (rule layout_as_place [of walks sz rt]) (simp add: descendants_place comp_def)

lemma map_parent_layout:
  "map parent (descendants (tree_layout walks sz rt)) = map parent (descendants rt)"
  by (rule layout_as_place [of walks sz rt]) (simp add: descendants_place comp_def)

lemma map_data_layout:
  "map node_data (descendants (tree_layout walks sz rt)) = map node_data (descendants rt)"
  by (rule layout_as_place [of walks sz rt]) (simp add: descendants_place comp_def)

lemma parents_layout:
  assumes "\<forall>n \<in> set (descendants rt).
     ident n = ident rt \<or> (\<exists>m \<in> set (descendants rt). parent n = Some (ident m))"
  shows "\<forall>n \<in> set (descendants (tree_layout walks sz rt)).
     ident n = ident (tree_layout walks sz rt) \<or>
     (\<exists>m \<in> set (descendants (tree_layout walks sz rt)). parent n = Some (ident m))"
proof (rule layout_as_place [of walks sz rt])
  fix g
  assume "tree_layout walks sz rt = place g (place (\<lambda>n. walks rt (ident n)) rt)"
  then show ?thesis
    using parents_descendants_place [OF parents_descendants_place [OF assms]] by simp
qed

lemma descendants_unfold: "descendants rt = rt # each_level (kids rt)"
  by (simp add: descendants_def)

lemma length_links:
  assumes dist: "distinct (map ident (descendants rt))"
    and par: "\<forall>n \<in> set (descendants rt).
      ident n = ident rt \<or> (\<exists>m \<in> set (descendants rt). parent n = Some (ident m))"
  shows "Suc (length (links rt)) = length (descendants rt)"
proof -
  let ?rest = "each_level (kids rt)"
  have one: "length (link_of rt n) = 1" if n: "n \<in> set ?rest" for n
  proof -
    from n have "ident n \<in> ident ` set ?rest" by (rule imageI)
    with dist have ne: "ident n \<noteq> ident rt"
      by (auto simp: descendants_unfold)
    from n have "n \<in> set (descendants rt)" by (simp add: descendants_unfold)
    with par ne obtain m where m: "m \<in> set (descendants rt)" "parent n = Some (ident m)"
      by blast
    then have "deref rt (ident m) \<noteq> None"
      by (auto simp: deref_def find_None_iff)
    with ne m show ?thesis by (auto simp: link_of_def)
  qed
  have "length (links rt) = sum_list (map (\<lambda>n. length (link_of rt n)) ?rest)"
    by (simp add: links_def descendants_unfold link_of_def length_concat comp_def)
  also have "\<dots> = sum_list (map (\<lambda>n. 1) ?rest)"
    using one by (simp cong: map_cong)
  also have "\<dots> = length ?rest" by (simp add: sum_list_triv)
  finally show ?thesis by (simp add: descendants_unfold)
qed

lemma links_source:
  "l \<in> set (links rt) \<Longrightarrow>
   target l \<in> set (descendants rt) \<and> source l \<in> set (descendants rt) \<and>
   parent (target l) = Some (ident (source l))"
proof -
  assume "l \<in> set (links rt)"
  then obtain n where n: "n \<in> set (descendants rt)" "l \<in> set (link_of rt n)"
    by (auto simp: links_def)
  from n(2) obtain p where p: "parent n = Some p"
    by (cases "parent n") (auto simp: link_of_def split: if_splits)
  with n(2) obtain s where s: "deref rt p = Some s"
    by (cases "deref rt p") (auto simp: link_of_def split: if_splits)
  with n(2) p have l: "l = \<lparr>source = s, target = n\<rparr>"
    by (auto simp: link_of_def split: if_splits)
  note ps = p s l
  from ps(2) have "s \<in> set (descendants rt)" "ident s = p"
    by (auto simp: deref_def find_Some_iff)
  with n ps show ?thesis by simp
qed

lemma edges_nodes_layout:
  "Suc (length (links (tree_layout walks sz (hierarchy c)))) =
   length (descendants (tree_layout walks sz (hierarchy c)))"
proof (rule length_links)
  show "distinct (map ident (descendants (tree_layout walks sz (hierarchy c))))"
    by (simp add: map_ident_layout distinct_descendants_hierarchy)
  show "\<forall>n \<in> set (descendants (tree_layout walks sz (hierarchy c))).
     ident n = ident (tree_layout walks sz (hierarchy c)) \<or>
     (\<exists>m \<in> set (descendants (tree_layout walks sz (hierarchy c))). parent n = Some (ident m))"
    by (rule parents_layout [OF parents_descendants_hierarchy])
qed

lemma length_descendants_layout:
  "length (descendants (tree_layout walks sz (hierarchy c))) = cow_count c"
  using arg_cong [OF map_ident_layout [of walks sz "hierarchy c"], of length]
  by (simp add: length_descendants hierarchy_def node_count_hierarchy)

section \<open>Properties of the drag handlers\<close>

lemma is_node_on_start: "is_node i (on_start t g) = is_node i g"
  by (simp add: is_node_def on_start_def)

lemma is_node_on_drag: "is_node i (on_drag ev g) = is_node i g"
  by (simp add: is_node_def on_drag_def)

lemma is_node_fold_drag: "is_node i (fold on_drag moves g) = is_node i g"
  by (induction moves arbitrary: g) (simp_all add: is_node_on_drag)

lemma dragStart_fold_drag: "dragStart (fold on_drag moves g) = dragStart g"
  by (induction moves arbitrary: g) (simp_all add: on_drag_def)

lemma datum_fold_drag: "datum (fold on_drag moves g) = datum g"
  by (induction moves arbitrary: g) (simp_all add: on_drag_def)

lemma wasClick_gesture:
  "wasClick t1 (fold on_drag moves (on_start t0 g)) = (t1 - t0 < 200)"
  by (simp add: wasClick_def dragStart_fold_drag on_start_def)

lemma at_node_at_node:
  "(\<And>g. is_node i (f g) = is_node i g) \<Longrightarrow>
   at_node i h (at_node i f sv) = at_node i (h \<circ> f) sv"
  by (simp add: at_node_def)

lemma handle_drags:
  "foldl handle v (map (Drag i) moves) =
   v\<lparr>treeContainer := map (at_node i (fold on_drag moves)) (treeContainer v)\<rparr>"
proof (induction moves arbitrary: v)
  case Nil
  show ?case by (simp add: at_node_def cong: if_cong)
next
  case (Cons m moves)
  show ?case
    by (simp add: Cons.IH at_node_at_node is_node_on_drag comp_def)
qed

lemma run_unfold:
  "run v (gesture i t0 moves t1) =
   handle (foldl handle (handle v (DragStart i t0)) (map (Drag i) moves)) (DragEnd i t1)"
  by (simp add: run_def gesture_def)

lemma filter_is_node_raise:
  "filter (is_node i) (raise_node i gs) = filter (is_node i) gs"
  by (simp add: raise_node_def)

lemma filter_is_node_map:
  "(\<And>g. is_node i (f g) = is_node i g) \<Longrightarrow>
   filter (is_node i) (map (\<lambda>g. if is_node i g then f g else g) gs) =
   map f (filter (is_node i) gs)"
  by (induction gs) simp_all

lemma opened_at_node:
  "(\<And>g. is_node i (f g) = is_node i g) \<Longrightarrow>
   opened i now (at_node i f sv) =
   concat (map (\<lambda>g. snd (on_end now (f g))) (filter (is_node i) (nodes sv)))"
  by (simp add: opened_def at_node_def filter_is_node_map comp_def)

lemma is_node_gesture_prefix:
  "is_node i ((fold on_drag moves \<circ> on_start t0) g) = is_node i g"
  by (simp add: is_node_fold_drag is_node_on_start)

lemma dialog_run_gesture:
  "dialog (run v (gesture i t0 moves t1)) =
   dialog v @
   concat (map (\<lambda>sv. concat (map (\<lambda>g. snd (node_gesture t0 moves t1 g))
                                (filter (is_node i) (nodes sv)))) (treeContainer v))"
proof -
  have "opened i t1 (at_node i (fold on_drag moves)
          (at_node i (on_start t0) (sv\<lparr>nodes := raise_node i (nodes sv)\<rparr>))) =
        concat (map (\<lambda>g. snd (node_gesture t0 moves t1 g)) (filter (is_node i) (nodes sv)))"
    for sv
    using opened_at_node [of i "fold on_drag moves \<circ> on_start t0" t1
        "sv\<lparr>nodes := raise_node i (nodes sv)\<rparr>", OF is_node_gesture_prefix]
    by (simp add: at_node_at_node is_node_on_start filter_is_node_raise node_gesture_def)
  then show ?thesis
    by (simp add: run_unfold handle_drags comp_def)
qed

lemma container_run_gesture:
  "treeContainer (run v (gesture i t0 moves t1)) =
   map (\<lambda>sv. at_node i (\<lambda>g. fst (node_gesture t0 moves t1 g))
                    (sv\<lparr>nodes := raise_node i (nodes sv)\<rparr>)) (treeContainer v)"
proof -
  have "at_node i (\<lambda>g. fst (on_end t1 g)) (at_node i (fold on_drag moves)
          (at_node i (on_start t0) sv)) =
        at_node i (\<lambda>g. fst (node_gesture t0 moves t1 g)) sv" for sv
    by (simp add: at_node_at_node is_node_fold_drag is_node_on_start comp_def node_gesture_def)
  then show ?thesis
    by (simp add: run_unfold handle_drags comp_def)
qed

lemma filter_unique:
  "distinct (map f xs) \<Longrightarrow> x \<in> set xs \<Longrightarrow> filter (\<lambda>y. f y = f x) xs = [x]"
proof (induction xs)
  case Nil
  then show ?case by simp
next
  case (Cons a xs)
  show ?case
  proof (cases "a = x")
    case True
    with Cons.prems have "f x \<notin> f ` set xs" by simp
    then have "\<forall>y \<in> set xs. f y \<noteq> f x" by (metis imageI)
    then have "filter (\<lambda>y. f y = f x) xs = []" by (simp add: filter_empty_conv)
    with True show ?thesis by simp
  next
    case False
    with Cons.prems have "x \<in> set xs" "f a \<noteq> f x" by auto
    with Cons show ?thesis by simp
  qed
qed

lemma node_in_layout:
  assumes "n \<in> set (descendants rt)"
  obtains m where "m \<in> set (descendants (tree_layout walks sz rt))"
    "ident m = ident n" "node_data m = node_data n"
proof (rule layout_as_place [of walks sz rt])
  fix g
  assume eq: "tree_layout walks sz rt = place g (place (\<lambda>n. walks rt (ident n)) rt)"
  let ?m = "place g (place (\<lambda>n. walks rt (ident n)) n)"
  from assms have "?m \<in> set (descendants (tree_layout walks sz rt))"
    by (simp add: eq descendants_place)
  then show thesis by (rule that) simp_all
qed

lemma nodes_createTree:
  "createTree walks d el =
   [\<lparr>width = 800, height = 600, g_transform = (50, 50),
     lines = map draw_link (links (tree_layout walks (700, 500) (hierarchy d))),
     nodes = map draw_node (descendants (tree_layout walks (700, 500) (hierarchy d)))\<rparr>]"
  by (simp add: createTree_def selectAll_remove_def new_svg_def Let_def)

lemma is_node_draw_node: "is_node i (draw_node m) = (ident m = i)"
  by (simp add: is_node_def draw_node_def)

lemma target_nodes:
  assumes n: "n \<in> set (descendants (hierarchy d))"
  obtains m where
    "filter (is_node (ident n)) (map draw_node (descendants (tree_layout walks sz (hierarchy d))))
       = [draw_node m]"
    "ident m = ident n" "node_data m = node_data n"
    "m \<in> set (descendants (tree_layout walks sz (hierarchy d)))"
proof -
  from n obtain m where m: "m \<in> set (descendants (tree_layout walks sz (hierarchy d)))"
    "ident m = ident n" "node_data m = node_data n"
    by (rule node_in_layout)
  have "distinct (map ident (descendants (tree_layout walks sz (hierarchy d))))"
    by (simp add: map_ident_layout distinct_descendants_hierarchy)
  from filter_unique [OF this m(1)] m(2)
  have "filter (\<lambda>y. ident y = ident n) (descendants (tree_layout walks sz (hierarchy d))) = [m]"
    by simp
  then have "filter (is_node (ident n))
      (map draw_node (descendants (tree_layout walks sz (hierarchy d)))) = [draw_node m]"
    by (simp add: filter_map comp_def is_node_draw_node)
  then show thesis using m(2,3,1) by (rule that [of m])
qed

lemma snd_node_gesture:
  "snd (node_gesture t0 moves t1 g) =
   (if t1 - t0 < 200
    then [\<lparr>component = ''CowDialogComponent'', dialog_data = node_data (datum g)\<rparr>] else [])"
proof -
  have "datum (fold on_drag moves (on_start t0 g)) = datum g"
    by (simp add: datum_fold_drag on_start_def)
  then show ?thesis
    by (simp add: node_gesture_def on_end_def wasClick_gesture)
qed

lemma dialog_gesture_createTree:
  assumes tc: "treeContainer v = createTree walks d el"
    and n: "n \<in> set (descendants (hierarchy d))"
  shows "dialog (run v (gesture (ident n) t0 moves t1)) =
     dialog v @ (if t1 - t0 < 200
       then [\<lparr>component = ''CowDialogComponent'', dialog_data = node_data n\<rparr>] else [])"
proof -
  from n obtain m where m:
    "filter (is_node (ident n)) (map draw_node (descendants (tree_layout walks (700, 500) (hierarchy d))))
       = [draw_node m]" "node_data m = node_data n"
    by (rule target_nodes)
  show ?thesis
    by (simp add: dialog_run_gesture tc nodes_createTree m snd_node_gesture draw_node_def)
qed

lemma on_drag_apply: "on_drag ev g = g\<lparr>transform := ev\<rparr>"
  by (simp add: on_drag_def)

lemma fold_on_drag:
  "fold on_drag moves g = g\<lparr>transform := (if moves = [] then transform g else last moves)\<rparr>"
proof (induction moves arbitrary: g)
  case Nil
  show ?case by simp
next
  case (Cons m moves)
  have "fold on_drag (m # moves) g = fold on_drag moves (on_drag m g)"
    by simp
  also have "\<dots> = (on_drag m g)\<lparr>transform :=
      (if moves = [] then transform (on_drag m g) else last moves)\<rparr>"
    by (rule Cons.IH)
  also have "\<dots> = g\<lparr>transform :=
      (if m # moves = [] then transform g else last (m # moves))\<rparr>"
    by (simp add: on_drag_def)
  finally show ?case .
qed

lemma fst_node_gesture:
  "fst (node_gesture t0 moves t1 g) =
   g\<lparr>transform := (if moves = [] then transform g else last moves),
     dragging := Some False, dragStart := Some t0\<rparr>"
  by (simp add: node_gesture_def on_end_def fold_on_drag on_start_def)

lemma map_if_not:
  "map (\<lambda>g. if P g then f g else g) (filter (\<lambda>g. \<not> P g) xs) = filter (\<lambda>g. \<not> P g) xs"
  by (rule map_idI) simp

lemma map_if_yes:
  "map (\<lambda>g. if P g then f g else g) (filter P xs) = map f (filter P xs)"
  by (rule map_cong) simp_all

lemma nodes_at_raise:
  "nodes (at_node i f (sv\<lparr>nodes := raise_node i (nodes sv)\<rparr>)) =
   filter (\<lambda>g. \<not> is_node i g) (nodes sv) @ map f (filter (is_node i) (nodes sv))"
  by (simp add: at_node_def raise_node_def map_if_not map_if_yes)

lemma at_node_frame:
  "width (at_node i f sv) = width sv" "height (at_node i f sv) = height sv"
  "g_transform (at_node i f sv) = g_transform sv" "lines (at_node i f sv) = lines sv"
  by (simp_all add: at_node_def)

lemma layout_chain:
  "tree_layout walks_chain (700, 500) (hierarchy chain) =
   HNode [] None 0 chain (350, 0) [HNode [0] (Some []) 1 (leaf ''B'') (350, 500) []]"
  by (simp add: chain_def leaf_def hierarchy_def tree_layout_def walk_def walks_chain_def
       scale_def leftmost_def rightmost_def bottommost_def Let_def)

lemma render_chain:
  "createTree walks_chain chain el =
   [\<lparr>width = 800, height = 600, g_transform = (50, 50),
     lines = [\<lparr>cls = ''link'', x1 = 350, y1 = 0, x2 = 350, y2 = 500,
               stroke = ''#999'', stroke_width = 2\<rparr>],
     nodes = [draw_node (HNode [] None 0 chain (350, 0)
                 [HNode [0] (Some []) 1 (leaf ''B'') (350, 500) []]),
              draw_node (HNode [0] (Some []) 1 (leaf ''B'') (350, 500) [])]\<rparr>]"
  by (simp add: nodes_createTree layout_chain descendants_def links_def link_of_def deref_def
       draw_link_def node_x_def node_y_def)

lemma chain_drag:
  "run chain_view (gesture [0] 0 [(10, 10)] 250) =
   \<lparr>treeContainer =
     [\<lparr>width = 800, height = 600, g_transform = (50, 50),
       lines = [\<lparr>cls = ''link'', x1 = 350, y1 = 0, x2 = 350, y2 = 500,
               stroke = ''#999'', stroke_width = 2\<rparr>],
       nodes = [draw_node (HNode [] None 0 chain (350, 0)
                 [HNode [0] (Some []) 1 (leaf ''B'') (350, 500) []]),
              (draw_node (HNode [0] (Some []) 1 (leaf ''B'') (350, 500) []))
                \<lparr>transform := (10, 10), dragging := Some False, dragStart := Some 0\<rparr>]\<rparr>],
    dialog = []\<rparr>"
  by (simp add: chain_view_def render_chain run_def gesture_def at_node_def raise_node_def
      is_node_def draw_node_def on_start_def on_drag_def on_end_def wasClick_def opened_def)

lemma createTree_same: "createTree walks d el = createTree walks d el'"
  by (simp add: nodes_createTree)

lemma chain_click:
  "run chain_view (gesture [0] 1000 [(400, 500)] 1100) =
   \<lparr>treeContainer =
     [\<lparr>width = 800, height = 600, g_transform = (50, 50),
       lines = [\<lparr>cls = ''link'', x1 = 350, y1 = 0, x2 = 350, y2 = 500,
               stroke = ''#999'', stroke_width = 2\<rparr>],
       nodes = [draw_node (HNode [] None 0 chain (350, 0)
                 [HNode [0] (Some []) 1 (leaf ''B'') (350, 500) []]),
              (draw_node (HNode [0] (Some []) 1 (leaf ''B'') (350, 500) []))
                \<lparr>transform := (400, 500), dragging := Some False, dragStart := Some 1000\<rparr>]\<rparr>],
    dialog = [\<lparr>component = ''CowDialogComponent'', dialog_data = leaf ''B''\<rparr>]\<rparr>"
  by (simp add: chain_view_def render_chain run_def gesture_def at_node_def raise_node_def
      is_node_def draw_node_def on_start_def on_drag_def on_end_def wasClick_def opened_def)

lemma chain_node: "hierarchy_at [0] (Some []) 1 (leaf ''B'') \<in> set (descendants (hierarchy chain))"
  by (simp add: descendants_def hierarchy_def chain_def leaf_def)

lemma chain_view_container: "treeContainer chain_view = createTree walks_chain chain []"
  by (simp add: chain_view_def)

section \<open>Properties of single nodes, of the dialog and of the object graph\<close>

lemma layout_single:
  "ch = None \<or> ch = Some [] \<Longrightarrow>
   tree_layout walks (700, 500) (hierarchy (Cow nm a g nt ch)) =
   HNode [] None 0 (Cow nm a g nt ch) (350, 0) []"
  by (auto simp: hierarchy_def tree_layout_def walk_def
       scale_def leftmost_def rightmost_def bottommost_def Let_def)

lemma render_single:
  "ch = None \<or> ch = Some [] \<Longrightarrow>
   createTree walks (Cow nm a g nt ch) el =
   [\<lparr>width = 800, height = 600, g_transform = (50, 50), lines = [],
     nodes = [draw_node (HNode [] None 0 (Cow nm a g nt ch) (350, 0) [])]\<rparr>]"
  by (simp add: nodes_createTree layout_single descendants_def links_def link_of_def)






lemma text_layout:
  "map text_content (concat (map nodes (createTree walks d el))) =
   map (\<lambda>n. name (node_data n)) (descendants (hierarchy d))"
proof -
  have "map text_content (concat (map nodes (createTree walks d el))) =
      map name (map node_data (descendants (tree_layout walks (700, 500) (hierarchy d))))"
    by (simp add: nodes_createTree draw_node_def comp_def)
  also have "\<dots> = map name (map node_data (descendants (hierarchy d)))"
    by (simp only: map_data_layout)
  finally show ?thesis by (simp add: comp_def)
qed

section \<open>Views after a rendering\<close>

lemma datum_handlers:
  "datum (on_start t g) = datum g" "datum (on_drag ev g) = datum g"
  "datum (fst (on_end t g)) = datum g"
  by (simp_all add: on_start_def on_drag_def on_end_def)

lemma map_datum_if:
  "(\<And>g. datum (f g) = datum g) \<Longrightarrow>
   map datum (map (\<lambda>g. if is_node i g then f g else g) gs) = map datum gs"
  by (induction gs) simp_all

lemma mset_raise_node: "mset (map datum (raise_node i gs)) = mset (map datum gs)"
proof -
  have "mset (raise_node i gs) = mset gs"
    by (simp add: raise_node_def)
  then show ?thesis by (metis mset_map)
qed

lemma handle_rendered:
  assumes "treeContainer v = [\<lparr>width = w, height = h, g_transform = gt, lines = ls, nodes = ns\<rparr>]"
  shows "\<exists>ns'. treeContainer (handle v e) =
           [\<lparr>width = w, height = h, g_transform = gt, lines = ls, nodes = ns'\<rparr>] \<and>
         mset (map datum ns') = mset (map datum ns)"
proof (cases e)
  case (DragStart i now)
  let ?ns' = "map (\<lambda>g. if is_node i g then on_start now g else g) (raise_node i ns)"
  have "map datum ?ns' = map datum (raise_node i ns)"
    by (rule map_datum_if) (rule datum_handlers)
  then have "mset (map datum ?ns') = mset (map datum ns)"
    by (simp only: mset_raise_node)
  moreover have "treeContainer (handle v e) =
      [\<lparr>width = w, height = h, g_transform = gt, lines = ls, nodes = ?ns'\<rparr>]"
    using assms DragStart by (simp add: at_node_def)
  ultimately show ?thesis by blast
next
  case (Drag i ev)
  let ?ns' = "map (\<lambda>g. if is_node i g then on_drag ev g else g) ns"
  have "map datum ?ns' = map datum ns"
    by (rule map_datum_if) (rule datum_handlers)
  then have "mset (map datum ?ns') = mset (map datum ns)"
    by (simp only:)
  moreover have "treeContainer (handle v e) =
      [\<lparr>width = w, height = h, g_transform = gt, lines = ls, nodes = ?ns'\<rparr>]"
    using assms Drag by (simp add: at_node_def)
  ultimately show ?thesis by blast
next
  case (DragEnd i now)
  let ?ns' = "map (\<lambda>g. if is_node i g then fst (on_end now g) else g) ns"
  have "map datum ?ns' = map datum ns"
    by (rule map_datum_if) (rule datum_handlers)
  then have "mset (map datum ?ns') = mset (map datum ns)"
    by (simp only:)
  moreover have "treeContainer (handle v e) =
      [\<lparr>width = w, height = h, g_transform = gt, lines = ls, nodes = ?ns'\<rparr>]"
    using assms DragEnd by (simp add: at_node_def)
  ultimately show ?thesis by blast
qed

lemma run_rendered:
  assumes "treeContainer v = [\<lparr>width = w, height = h, g_transform = gt, lines = ls, nodes = ns\<rparr>]"
  shows "\<exists>ns'. treeContainer (run v evs) =
           [\<lparr>width = w, height = h, g_transform = gt, lines = ls, nodes = ns'\<rparr>] \<and>
         mset (map datum ns') = mset (map datum ns)"
  using assms
proof (induction evs arbitrary: v ns)
  case Nil
  then show ?case by (simp add: run_def)
next
  case (Cons e evs)
  from handle_rendered [OF Cons.prems, of e] obtain ns1 where
    h: "treeContainer (handle v e) =
         [\<lparr>width = w, height = h, g_transform = gt, lines = ls, nodes = ns1\<rparr>]"
    and m: "mset (map datum ns1) = mset (map datum ns)"
    by blast
  from Cons.IH [OF h] m show ?case by (auto simp: run_def)
qed

lemma reachable_target:
  assumes tc: "treeContainer v0 = createTree walks d el"
    and n: "n \<in> set (descendants (hierarchy d))"
  obtains ns g where
    "treeContainer (run v0 evs) =
       [\<lparr>width = 800, height = 600, g_transform = (50, 50),
         lines = map draw_link (links (tree_layout walks (700, 500) (hierarchy d))),
         nodes = ns\<rparr>]"
    "filter (is_node (ident n)) ns = [g]"
    "node_data (datum g) = node_data n"
proof -
  let ?L = "tree_layout walks (700, 500) (hierarchy d)"
  from run_rendered [of v0 800 600 "(50, 50)" "map draw_link (links ?L)"
      "map draw_node (descendants ?L)" evs] tc
  obtain ns where c: "treeContainer (run v0 evs) =
       [\<lparr>width = 800, height = 600, g_transform = (50, 50),
         lines = map draw_link (links ?L), nodes = ns\<rparr>]"
    and m: "mset (map datum ns) = mset (map datum (map draw_node (descendants ?L)))"
    by (auto simp: nodes_createTree)
  have "map datum (map draw_node (descendants ?L)) = descendants ?L"
    by (simp add: draw_node_def comp_def)
  with m have m': "mset (map datum ns) = mset (descendants ?L)" by (simp only:)
  have "mset (map ident (map datum ns)) = image_mset ident (mset (map datum ns))"
    by (rule mset_map)
  also have "\<dots> = image_mset ident (mset (descendants ?L))"
    by (rule arg_cong [OF m'])
  also have "\<dots> = mset (map ident (descendants ?L))"
    by (rule mset_map [symmetric])
  finally have "distinct (map ident (map datum ns)) = distinct (map ident (descendants ?L))"
    by (rule mset_eq_imp_distinct_iff)
  moreover have "distinct (map ident (descendants ?L))"
    by (simp add: map_ident_layout distinct_descendants_hierarchy)
  ultimately have "distinct (map ident (map datum ns))" by (simp only:)
  then have dist: "distinct (map (\<lambda>g. ident (datum g)) ns)"
    by (simp add: comp_def)
  from n obtain m0 where m0: "m0 \<in> set (descendants ?L)"
    "ident m0 = ident n" "node_data m0 = node_data n"
    by (rule node_in_layout)
  have "set_mset (mset (map datum ns)) = set_mset (mset (descendants ?L))"
    by (rule arg_cong [OF m'])
  then have "set (map datum ns) = set (descendants ?L)"
    by (simp only: set_mset_mset)
  with m0(1) have "m0 \<in> set (map datum ns)" by (simp only:)
  then obtain g where g: "g \<in> set ns" "datum g = m0" by auto
  have "is_node (ident n) = (\<lambda>y. ident (datum y) = ident n)"
    by (rule ext) (simp add: is_node_def)
  with filter_unique [OF dist g(1)] g(2) m0(2)
  have fg: "filter (is_node (ident n)) ns = [g]"
    by simp
  from g(2) m0(3) have "node_data (datum g) = node_data n" by simp
  with c fg show thesis by (rule that)
qed

lemma run_gesture_rendered:
  assumes c: "treeContainer v =
      [\<lparr>width = w, height = h, g_transform = gt, lines = ls, nodes = ns\<rparr>]"
    and f: "filter (is_node i) ns = [g]"
  shows "run v (gesture i t0 moves t1) =
     \<lparr>treeContainer =
        [\<lparr>width = w, height = h, g_transform = gt, lines = ls,
          nodes = filter (\<lambda>g. \<not> is_node i g) ns @
                  [g\<lparr>transform := (if moves = [] then transform g else last moves),
                     dragging := Some False, dragStart := Some t0\<rparr>]\<rparr>],
      dialog = dialog v @
        (if t1 - t0 < 200
         then [\<lparr>component = ''CowDialogComponent'', dialog_data = node_data (datum g)\<rparr>]
         else [])\<rparr>"
proof -
  let ?sv = "\<lparr>width = w, height = h, g_transform = gt, lines = ls, nodes = ns\<rparr>"
  let ?sv' = "at_node i (\<lambda>g. fst (node_gesture t0 moves t1 g))
       (?sv\<lparr>nodes := raise_node i (nodes ?sv)\<rparr>)"
  let ?r = "run v (gesture i t0 moves t1)"
  have tc: "treeContainer ?r = [?sv']"
    by (simp add: container_run_gesture c)
  have "nodes ?sv' = filter (\<lambda>g. \<not> is_node i g) (nodes ?sv) @
      map (\<lambda>g. fst (node_gesture t0 moves t1 g)) (filter (is_node i) (nodes ?sv))"
    by (rule nodes_at_raise)
  then have ns: "nodes ?sv' = filter (\<lambda>g. \<not> is_node i g) ns @
      [fst (node_gesture t0 moves t1 g)]"
    using f by simp
  have "?sv' = \<lparr>width = width ?sv', height = height ?sv', g_transform = g_transform ?sv',
      lines = lines ?sv', nodes = nodes ?sv'\<rparr>"
    by simp
  also have "\<dots> = \<lparr>width = w, height = h, g_transform = gt, lines = ls,
      nodes = filter (\<lambda>g. \<not> is_node i g) ns @ [fst (node_gesture t0 moves t1 g)]\<rparr>"
    unfolding ns at_node_frame by simp
  finally have sv: "?sv' = \<lparr>width = w, height = h, g_transform = gt, lines = ls,
      nodes = filter (\<lambda>g. \<not> is_node i g) ns @
        [g\<lparr>transform := (if moves = [] then transform g else last moves),
           dragging := Some False, dragStart := Some t0\<rparr>]\<rparr>"
    by (simp add: fst_node_gesture)
  have dl: "dialog ?r = dialog v @
        (if t1 - t0 < 200
         then [\<lparr>component = ''CowDialogComponent'', dialog_data = node_data (datum g)\<rparr>]
         else [])"
    by (simp add: dialog_run_gesture c f snd_node_gesture)
  have "?r = \<lparr>treeContainer = treeContainer ?r, dialog = dialog ?r\<rparr>" by simp
  then show ?thesis
    unfolding tc sv dl .
qed

section \<open>Properties of the object graph\<close>




lemma unfold_chain: "unfold (Suc (Suc k)) chain_heap 0 = Some chain"
  by (simp add: chain_heap_def chain_def leaf_def)

lemma createTree_graph_chain:
  "createTree_graph walks 2 chain_heap 0 el = (Completed, createTree walks chain el)"
proof -
  have "unfold 2 chain_heap 0 = Some chain"
    using unfold_chain [of 0] by (simp add: numeral_2_eq_2)
  moreover have "cow_count chain = 2"
    by (simp add: chain_def leaf_def)
  ultimately show ?thesis
    by (simp add: createTree_graph_def hierarchy_graph_def)
qed

lemma unfold_mono:
  "unfold k h a = Some d \<Longrightarrow> unfold (Suc k) h a = Some d"
  "unfold_list k h as = Some ds \<Longrightarrow> unfold_list (Suc k) h as = Some ds"
proof (induction k h a and k h as arbitrary: d and ds rule: unfold_unfold_list.induct)
  case (1 h a)
  then show ?case by simp
next
  case (2 k h a)
  then show ?case by (auto split: option.splits)
next
  case (3 k h)
  then show ?case by simp
next
  case (4 k h a childs)
  then show ?case by (cases k) (auto split: option.splits)
qed

section \<open>Edges and nodes\<close>

text \<open>
  C7: for every tree, the rendering holds one line per parent-child link and one node
  group per entity, and the number of lines is the number of node groups minus one.
\<close>

theorem edges_are_nodes_minus_one:
  "\<exists>sv. createTree walks d el = [sv] \<and>
        length (nodes sv) = cow_count d \<and>
        Suc (length (lines sv)) = length (nodes sv) \<and>
        length (lines sv) = length (nodes sv) - 1"
proof -
  have "Suc (length (links (tree_layout walks (700, 500) (hierarchy d)))) =
        length (descendants (tree_layout walks (700, 500) (hierarchy d)))"
    by (rule edges_nodes_layout)
  moreover have "length (descendants (tree_layout walks (700, 500) (hierarchy d))) = cow_count d"
    by (rule length_descendants_layout)
  ultimately show ?thesis
    by (simp add: nodes_createTree)
qed

section \<open>Click or drag\<close>

text \<open>
  C1: a gesture on a rendered node, started at \<open>t0\<close> and ended at \<open>t1\<close>, is a click
  (\<^verbatim>\<open>wasClick\<close> holds in the end handler, and a dialog is opened) if and only if
  \<open>t1 - t0 < 200\<close>, whatever drag events came in between.
\<close>

theorem click_iff_elapsed_below_200:
  assumes "treeContainer v = createTree walks d el"
    and "n \<in> set (descendants (hierarchy d))"
  shows "wasClick t1 (fold on_drag moves (on_start t0 g)) = (t1 - t0 < 200) \<and>
         (dialog (run v (gesture (ident n) t0 moves t1)) \<noteq> dialog v) = (t1 - t0 < 200)"
  using dialog_gesture_createTree [OF assms, of t0 moves t1]
  by (simp add: wasClick_gesture)

text \<open>
  On the two-node tree: 100 ms with a movement of 50 px opens the dialog, 200 ms without
  any movement does not.
\<close>

theorem click_iff_elapsed_below_200_witness:
  "treeContainer chain_view = createTree walks_chain chain [] \<and>
   hierarchy_at [0] (Some []) 1 (leaf ''B'') \<in> set (descendants (hierarchy chain)) \<and>
   dialog (run chain_view (gesture [0] 1000 [(400, 500)] 1100)) \<noteq> dialog chain_view \<and>
   dialog (run chain_view (gesture [0] 1000 [] 1200)) = dialog chain_view"
proof -
  have tc: "treeContainer chain_view = createTree walks_chain chain []"
    by (simp add: chain_view_def)
  have n: "hierarchy_at [0] (Some []) 1 (leaf ''B'') \<in> set (descendants (hierarchy chain))"
    by (simp add: descendants_def hierarchy_def chain_def leaf_def)
  from click_iff_elapsed_below_200 [OF tc n, of 1100 "[(400, 500)]" 1000]
    click_iff_elapsed_below_200 [OF tc n, of 1200 "[]" 1000] tc n
  show ?thesis by simp
qed

text \<open>
  C2, as the code has it. The view is in any state that events leave after a rendering.
  A gesture of 200 ms or more on a node of the tree opens no dialog and leaves the view
  as it was but for the node group of that node, which is raised behind its siblings and
  keeps the transform of the last drag event of the gesture (the transform it had when
  the gesture began, if there was no drag event). The lines and the other node groups stay
  as they were: no layout pass runs and nothing records the position for one. A later
  \<^verbatim>\<open>createTree\<close> draws the tree as if no gesture had happened.
\<close>

theorem drag_leaves_node_without_relayout:
  assumes "treeContainer v0 = createTree walks d el"
    and "n \<in> set (descendants (hierarchy d))"
    and "200 \<le> t1 - t0"
  shows "\<exists>ns g.
     treeContainer (run v0 evs) =
       [\<lparr>width = 800, height = 600, g_transform = (50, 50),
         lines = map draw_link (links (tree_layout walks (700, 500) (hierarchy d))),
         nodes = ns\<rparr>] \<and>
     filter (is_node (ident n)) ns = [g] \<and>
     node_data (datum g) = node_data n \<and>
     run (run v0 evs) (gesture (ident n) t0 moves t1) =
       (run v0 evs)\<lparr>treeContainer :=
         [\<lparr>width = 800, height = 600, g_transform = (50, 50),
           lines = map draw_link (links (tree_layout walks (700, 500) (hierarchy d))),
           nodes = filter (\<lambda>g. \<not> is_node (ident n) g) ns @
                   [g\<lparr>transform := (if moves = [] then transform g else last moves),
                      dragging := Some False, dragStart := Some t0\<rparr>]\<rparr>]\<rparr> \<and>
     createTree walks d (treeContainer (run (run v0 evs) (gesture (ident n) t0 moves t1))) =
       createTree walks d el"
proof -
  from assms(1,2) obtain ns g where
    c: "treeContainer (run v0 evs) =
       [\<lparr>width = 800, height = 600, g_transform = (50, 50),
         lines = map draw_link (links (tree_layout walks (700, 500) (hierarchy d))),
         nodes = ns\<rparr>]"
    and f: "filter (is_node (ident n)) ns = [g]"
    and nd: "node_data (datum g) = node_data n"
    by (rule reachable_target)
  have "run (run v0 evs) (gesture (ident n) t0 moves t1) =
       (run v0 evs)\<lparr>treeContainer :=
         [\<lparr>width = 800, height = 600, g_transform = (50, 50),
           lines = map draw_link (links (tree_layout walks (700, 500) (hierarchy d))),
           nodes = filter (\<lambda>g. \<not> is_node (ident n) g) ns @
                   [g\<lparr>transform := (if moves = [] then transform g else last moves),
                      dragging := Some False, dragStart := Some t0\<rparr>]\<rparr>]\<rparr>"
    using run_gesture_rendered [OF c f, of t0 moves t1] assms(3) by simp
  moreover have "createTree walks d
      (treeContainer (run (run v0 evs) (gesture (ident n) t0 moves t1))) = createTree walks d el"
    by (rule createTree_same)
  ultimately show ?thesis using c f nd by blast
qed

text \<open>
  On the two-node tree, after a first gesture that moved the child to (10, 10): a press of
  300 ms without a drag event opens no dialog and leaves the child at (10, 10).
\<close>

theorem drag_leaves_node_without_relayout_witness:
  "treeContainer chain_view = createTree walks_chain chain [] \<and>
   hierarchy_at [0] (Some []) 1 (leaf ''B'') \<in> set (descendants (hierarchy chain)) \<and>
   (200 :: int) \<le> 1300 - 1000 \<and>
   dialog (run (run chain_view (gesture [0] 0 [(10, 10)] 250)) (gesture [0] 1000 [] 1300)) = [] \<and>
   map transform (concat (map nodes (treeContainer
     (run (run chain_view (gesture [0] 0 [(10, 10)] 250)) (gesture [0] 1000 [] 1300))))) =
     [(350, 0), (10, 10)]"
proof -
  have t: "(200 :: int) \<le> 1300 - 1000" by simp
  from drag_leaves_node_without_relayout
    [OF chain_view_container chain_node t, of "gesture [0] 0 [(10, 10)] 250" "[]"]
  obtain ns g where
    c: "treeContainer (run chain_view (gesture [0] 0 [(10, 10)] 250)) =
       [\<lparr>width = 800, height = 600, g_transform = (50, 50),
         lines = map draw_link (links (tree_layout walks_chain (700, 500) (hierarchy chain))),
         nodes = ns\<rparr>]"
    and f: "filter (is_node [0]) ns = [g]"
    and r: "run (run chain_view (gesture [0] 0 [(10, 10)] 250)) (gesture [0] 1000 [] 1300) =
       (run chain_view (gesture [0] 0 [(10, 10)] 250))\<lparr>treeContainer :=
         [\<lparr>width = 800, height = 600, g_transform = (50, 50),
           lines = map draw_link (links (tree_layout walks_chain (700, 500) (hierarchy chain))),
           nodes = filter (\<lambda>g. \<not> is_node [0] g) ns @
                   [g\<lparr>transform := transform g,
                      dragging := Some False, dragStart := Some 1000\<rparr>]\<rparr>]\<rparr>"
    by auto
  from c have ns: "ns = [draw_node (HNode [] None 0 chain (350, 0)
                 [HNode [0] (Some []) 1 (leaf ''B'') (350, 500) []]),
              (draw_node (HNode [0] (Some []) 1 (leaf ''B'') (350, 500) []))
                \<lparr>transform := (10, 10), dragging := Some False, dragStart := Some 0\<rparr>]"
    by (simp add: chain_drag)
  from f have g: "g = (draw_node (HNode [0] (Some []) 1 (leaf ''B'') (350, 500) []))
                \<lparr>transform := (10, 10), dragging := Some False, dragStart := Some 0\<rparr>"
    by (simp add: ns is_node_def draw_node_def)
  have d: "dialog (run (run chain_view (gesture [0] 0 [(10, 10)] 250))
      (gesture [0] 1000 [] 1300)) = []"
    by (subst r) (simp add: chain_drag)
  have tr: "map transform (concat (map nodes (treeContainer
     (run (run chain_view (gesture [0] 0 [(10, 10)] 250)) (gesture [0] 1000 [] 1300))))) =
     [(350, 0), (10, 10)]"
    by (subst r) (simp add: ns g is_node_def draw_node_def node_x_def node_y_def)
  show ?thesis
    using chain_view_container chain_node t d tr by blast
qed

text \<open>
  The claim fails on the two-node tree: after a gesture of 250 ms that moved the child to
  (10, 10), the node group is at (10, 10), the line to it still ends at its layout
  position (350, 500), and drawing the tree again puts the node back at (350, 500).
\<close>

theorem drag_no_relayout_counterexample:
  "map transform (concat (map nodes
     (treeContainer (run chain_view (gesture [0] 0 [(10, 10)] 250))))) = [(350, 0), (10, 10)] \<and>
   map (\<lambda>l. (x2 l, y2 l)) (concat (map lines
     (treeContainer (run chain_view (gesture [0] 0 [(10, 10)] 250))))) = [(350, 500)] \<and>
   map transform (concat (map nodes
     (createTree walks_chain chain
        (treeContainer (run chain_view (gesture [0] 0 [(10, 10)] 250)))))) =
     [(350, 0), (350, 500)]"
  by (simp add: chain_drag render_chain draw_node_def node_x_def node_y_def)

text \<open>
  C3, as the code has it. The view is in any state that events leave after a rendering.
  A gesture of less than 200 ms on a node of the tree opens one dialog whose data is the
  entity of that node. The node group is raised behind its siblings and keeps the
  transform of the last drag event of the gesture (the transform it had when the gesture
  began, if there was no drag event): no handler sets it back to the layout position.
  Nothing else in the view changes.
\<close>

theorem click_selects_without_snap_back:
  assumes "treeContainer v0 = createTree walks d el"
    and "n \<in> set (descendants (hierarchy d))"
    and "t1 - t0 < 200"
  shows "\<exists>ns g.
     treeContainer (run v0 evs) =
       [\<lparr>width = 800, height = 600, g_transform = (50, 50),
         lines = map draw_link (links (tree_layout walks (700, 500) (hierarchy d))),
         nodes = ns\<rparr>] \<and>
     filter (is_node (ident n)) ns = [g] \<and>
     node_data (datum g) = node_data n \<and>
     run (run v0 evs) (gesture (ident n) t0 moves t1) =
       \<lparr>treeContainer =
         [\<lparr>width = 800, height = 600, g_transform = (50, 50),
           lines = map draw_link (links (tree_layout walks (700, 500) (hierarchy d))),
           nodes = filter (\<lambda>g. \<not> is_node (ident n) g) ns @
                   [g\<lparr>transform := (if moves = [] then transform g else last moves),
                      dragging := Some False, dragStart := Some t0\<rparr>]\<rparr>],
        dialog = dialog (run v0 evs) @
          [\<lparr>component = ''CowDialogComponent'', dialog_data = node_data n\<rparr>]\<rparr>"
proof -
  from assms(1,2) obtain ns g where
    c: "treeContainer (run v0 evs) =
       [\<lparr>width = 800, height = 600, g_transform = (50, 50),
         lines = map draw_link (links (tree_layout walks (700, 500) (hierarchy d))),
         nodes = ns\<rparr>]"
    and f: "filter (is_node (ident n)) ns = [g]"
    and nd: "node_data (datum g) = node_data n"
    by (rule reachable_target)
  have "run (run v0 evs) (gesture (ident n) t0 moves t1) =
       \<lparr>treeContainer =
         [\<lparr>width = 800, height = 600, g_transform = (50, 50),
           lines = map draw_link (links (tree_layout walks (700, 500) (hierarchy d))),
           nodes = filter (\<lambda>g. \<not> is_node (ident n) g) ns @
                   [g\<lparr>transform := (if moves = [] then transform g else last moves),
                      dragging := Some False, dragStart := Some t0\<rparr>]\<rparr>],
        dialog = dialog (run v0 evs) @
          [\<lparr>component = ''CowDialogComponent'', dialog_data = node_data n\<rparr>]\<rparr>"
    using run_gesture_rendered [OF c f, of t0 moves t1] assms(3) nd by simp
  then show ?thesis using c f nd by blast
qed

text \<open>
  On the two-node tree, after a first gesture that moved the child to (10, 10): a gesture
  of 100 ms that moves the child to (400, 500) and on to (350, 500) opens the dialog of
  the child and leaves the child at (350, 500), where the last drag event put it.
\<close>

theorem click_selects_without_snap_back_witness:
  "treeContainer chain_view = createTree walks_chain chain [] \<and>
   hierarchy_at [0] (Some []) 1 (leaf ''B'') \<in> set (descendants (hierarchy chain)) \<and>
   (2100 :: int) - 2000 < 200 \<and>
   dialog (run (run chain_view (gesture [0] 0 [(10, 10)] 250))
     (gesture [0] 2000 [(400, 500), (350, 500)] 2100)) =
     [\<lparr>component = ''CowDialogComponent'', dialog_data = leaf ''B''\<rparr>] \<and>
   map transform (concat (map nodes (treeContainer
     (run (run chain_view (gesture [0] 0 [(10, 10)] 250))
        (gesture [0] 2000 [(400, 500), (350, 500)] 2100))))) =
     [(350, 0), (350, 500)]"
proof -
  have t: "(2100 :: int) - 2000 < 200" by simp
  from click_selects_without_snap_back
    [OF chain_view_container chain_node t, of "gesture [0] 0 [(10, 10)] 250"
      "[(400, 500), (350, 500)]"]
  obtain ns g where
    c: "treeContainer (run chain_view (gesture [0] 0 [(10, 10)] 250)) =
       [\<lparr>width = 800, height = 600, g_transform = (50, 50),
         lines = map draw_link (links (tree_layout walks_chain (700, 500) (hierarchy chain))),
         nodes = ns\<rparr>]"
    and r: "run (run chain_view (gesture [0] 0 [(10, 10)] 250))
        (gesture [0] 2000 [(400, 500), (350, 500)] 2100) =
       \<lparr>treeContainer =
         [\<lparr>width = 800, height = 600, g_transform = (50, 50),
           lines = map draw_link (links (tree_layout walks_chain (700, 500) (hierarchy chain))),
           nodes = filter (\<lambda>g. \<not> is_node [0] g) ns @
                   [g\<lparr>transform := (350, 500),
                      dragging := Some False, dragStart := Some 2000\<rparr>]\<rparr>],
        dialog = dialog (run chain_view (gesture [0] 0 [(10, 10)] 250)) @
          [\<lparr>component = ''CowDialogComponent'',
            dialog_data = node_data (hierarchy_at [0] (Some []) 1 (leaf ''B''))\<rparr>]\<rparr>"
    by auto
  from c have ns: "ns = [draw_node (HNode [] None 0 chain (350, 0)
                 [HNode [0] (Some []) 1 (leaf ''B'') (350, 500) []]),
              (draw_node (HNode [0] (Some []) 1 (leaf ''B'') (350, 500) []))
                \<lparr>transform := (10, 10), dragging := Some False, dragStart := Some 0\<rparr>]"
    by (simp add: chain_drag)
  have d: "dialog (run (run chain_view (gesture [0] 0 [(10, 10)] 250))
     (gesture [0] 2000 [(400, 500), (350, 500)] 2100)) =
     [\<lparr>component = ''CowDialogComponent'', dialog_data = leaf ''B''\<rparr>]"
    by (subst r) (simp add: chain_drag)
  have tr: "map transform (concat (map nodes (treeContainer
     (run (run chain_view (gesture [0] 0 [(10, 10)] 250))
        (gesture [0] 2000 [(400, 500), (350, 500)] 2100))))) =
     [(350, 0), (350, 500)]"
    by (subst r) (simp add: ns is_node_def draw_node_def node_x_def node_y_def)
  show ?thesis
    using chain_view_container chain_node t d tr by blast
qed

text \<open>
  The claim fails on the two-node tree: a gesture of 100 ms that moved the child by 50 px
  opens the dialog and leaves the node group at (400, 500), not at the (350, 500) it had
  before the gesture.
\<close>

theorem click_no_snap_back_counterexample:
  "map transform (concat (map nodes (treeContainer chain_view))) = [(350, 0), (350, 500)] \<and>
   map transform (concat (map nodes
     (treeContainer (run chain_view (gesture [0] 1000 [(400, 500)] 1100))))) =
     [(350, 0), (400, 500)] \<and>
   length (dialog (run chain_view (gesture [0] 1000 [(400, 500)] 1100))) = 1"
proof -
  have before: "map transform (concat (map nodes (treeContainer chain_view))) =
      [(350, 0), (350, 500)]"
    by (simp add: chain_view_def render_chain draw_node_def node_x_def node_y_def)
  have after: "map transform (concat (map nodes
     (treeContainer (run chain_view (gesture [0] 1000 [(400, 500)] 1100))))) =
     [(350, 0), (400, 500)]"
    by (simp add: chain_click draw_node_def node_x_def node_y_def)
  have opened: "length (dialog (run chain_view (gesture [0] 1000 [(400, 500)] 1100))) = 1"
    by (simp add: chain_click)
  show ?thesis by (rule conjI [OF before conjI [OF after opened]])
qed

section \<open>The selection and the dialog\<close>




section \<open>Loading a tree\<close>



section \<open>The layout pass\<close>

text \<open>
  C8: \<^verbatim>\<open>createTree\<close> on the same tree gives the same rendering whatever the
  container held before, so a second pass gives exactly the rendering of the first, with
  the same coordinates of every line and node group, and the container holds one
  \<^verbatim>\<open>svg\<close> after any number of passes. The same holds of \<^verbatim>\<open>ngOnInit\<close>.
\<close>

theorem createTree_idempotent:
  "createTree walks d (createTree walks d el) = createTree walks d el \<and>
   createTree walks d el = createTree walks d el' \<and>
   length (createTree walks d (createTree walks d el)) = 1 \<and>
   map transform (concat (map nodes (createTree walks d (createTree walks d el)))) =
     map transform (concat (map nodes (createTree walks d el))) \<and>
   map (\<lambda>l. (x1 l, y1 l, x2 l, y2 l)) (concat (map lines (createTree walks d (createTree walks d el)))) =
     map (\<lambda>l. (x1 l, y1 l, x2 l, y2 l)) (concat (map lines (createTree walks d el))) \<and>
   ngOnInit walks (ngOnInit walks v) = ngOnInit walks v"
proof -
  have same: "createTree walks d (createTree walks d el) = createTree walks d el"
    by (rule createTree_same)
  have "ngOnInit walks (ngOnInit walks v) = ngOnInit walks v"
    using createTree_same [of walks data "createTree walks data (treeContainer v)" "treeContainer v"]
    by (simp add: ngOnInit_def)
  moreover have "length (createTree walks d el) = 1"
    by (simp add: nodes_createTree)
  moreover have "createTree walks d el = createTree walks d el'"
    by (rule createTree_same)
  ultimately show ?thesis
    unfolding same by simp
qed

text \<open>
  C9, as the code has it: a tree of the root alone, with no \<^verbatim>\<open>children\<close> or with an
  empty array, is drawn as one node group and no line. The node group is at x = 350, the
  middle of the 700 units of the layout's width, and at y = 0, the top of its 500 units
  of height, whatever the walks give.
\<close>

theorem single_node_top_middle:
  "createTree walks (Cow nm a g nt None) el =
   [\<lparr>width = 800, height = 600, g_transform = (50, 50), lines = [],
     nodes = [draw_node (HNode [] None 0 (Cow nm a g nt None) (350, 0) [])]\<rparr>] \<and>
   createTree walks (Cow nm a g nt (Some [])) el =
   [\<lparr>width = 800, height = 600, g_transform = (50, 50), lines = [],
     nodes = [draw_node (HNode [] None 0 (Cow nm a g nt (Some [])) (350, 0) [])]\<rparr>] \<and>
   transform (draw_node (HNode [] None 0 c (350, 0) [])) = (350, 0)"
  by (simp add: render_single draw_node_def node_x_def node_y_def)

text \<open>
  The claim fails on the tree of one node named A: the node group is at (350, 0), and the
  centre of the 700 by 500 layout area is (350, 250).
\<close>

theorem single_node_not_centred_counterexample:
  "map transform (concat (map nodes (createTree walks_chain (leaf ''A'') []))) = [(350, 0)] \<and>
   map transform (concat (map nodes (createTree walks_chain (leaf ''A'') []))) \<noteq>
     [(700 / 2, 500 / 2)]"
  by (simp add: leaf_def render_single draw_node_def node_x_def node_y_def)

section \<open>The module and the storage\<close>

text \<open>
  C10: loading the module writes the sample list, serialised, under the key
  \<^verbatim>\<open>cows\<close> of the storage, whatever the storage held, reads it back and logs it; it
  needs and makes no component instance. The component renders its own tree
  \<^verbatim>\<open>data\<close> of six entities: the rendering is the same for every content of the
  storage.
\<close>

theorem module_load_writes_storage_only:
  "localStorage (module_load p) ''cows'' =
     Some (JArr [JObj [(''name'', JStr ''Lilly''), (''age'', JNum 11), (''gender'', JStr ''female'')]]) \<and>
   console (module_load p) =
     console p @ [JArr [JObj [(''name'', JStr ''Lilly''), (''age'', JNum 11), (''gender'', JStr ''female'')]]] \<and>
   instance_of (module_load p) = instance_of p \<and>
   instance_of (create_component walks (module_load p)) =
     Some \<lparr>treeContainer = createTree walks data [], dialog = []\<rparr> \<and>
   instance_of (create_component walks (p\<lparr>localStorage := s\<rparr>)) =
     instance_of (create_component walks p) \<and>
   map text_content (concat (map nodes (createTree walks data [])))
     = [''Lilly'', ''Bella'', ''Daisy'', ''Buttercup'', ''MooMoo'', ''Bessie'']"
proof -
  have "map text_content (concat (map nodes (createTree walks data []))) =
      map (\<lambda>n. name (node_data n)) (descendants (hierarchy data))"
    by (rule text_layout)
  also have "\<dots> = [''Lilly'', ''Bella'', ''Daisy'', ''Buttercup'', ''MooMoo'', ''Bessie'']"
    by (simp add: data_def leaf_def hierarchy_def descendants_def)
  finally show ?thesis
    by (simp add: module_load_def Let_def JSON_stringify_def JSON_parse_def cows_def
        create_component_def ngOnInit_def new_view_def)
qed

end
